theory Spec2Isabelle
  imports Main
begin

section \<open>SimpleVector: a growable array over an owned buffer\<close>

text \<open>
  The development embeds \<^verbatim>\<open>simple-vector/simple_vector.h\<close>. The class template
  \<^verbatim>\<open>SimpleVector<Type>\<close> becomes a record over an element type \<open>'a\<close>; every
  member function becomes a function from the state before the call to the state after
  it. The values of \<^verbatim>\<open>size_t\<close> are natural numbers: a buffer of \<open>2^63\<close> slots
  cannot be allocated, so \<^verbatim>\<open>capacity_ * 2\<close> and \<^verbatim>\<open>++size_\<close> do not wrap on a state
  that owns its buffer, and allocation itself is taken to succeed. An iterator
  (\<^verbatim>\<open>Type*\<close>) into the buffer of a vector is the offset from \<^verbatim>\<open>items_.Get()\<close>, so
  \<^verbatim>\<open>begin()\<close> is \<open>0\<close> and \<^verbatim>\<open>end()\<close> is \<^verbatim>\<open>size_\<close>.

  What C++ leaves undefined is a value of the model: an access outside the allocated
  slots, a read of a slot that was never written, a read through a reference into a
  buffer that has been released, a failed \<^verbatim>\<open>assert\<close>. Together with
  the exception of \<^verbatim>\<open>At\<close> these are the errors below, and an operation that can meet
  one returns \<open>error + result\<close>.
\<close>

datatype error =
    out_of_range          \<comment> \<open>\<^verbatim>\<open>std::out_of_range\<close>, thrown by \<^verbatim>\<open>At\<close>\<close>
  | assertion_failed      \<comment> \<open>an \<^verbatim>\<open>assert\<close> of the source does not hold\<close>
  | out_of_bounds         \<comment> \<open>access outside the allocated slots\<close>
  | uninitialised_read    \<comment> \<open>read of a slot that was never written\<close>
  | use_after_free        \<comment> \<open>read through a reference into a buffer that was released\<close>

subsection \<open>The owned buffer\<close>

text \<open>
  Modelled from the spec: \<^verbatim>\<open>array_ptr.h\<close> (the class template \<^verbatim>\<open>ArrayPtr\<close>) is not
  among the sources. The spec describes it as exclusively owning a contiguous run of
  slots, with \<^verbatim>\<open>allocate(n)\<close> acquiring \<open>n\<close> raw slots (\<open>n = 0\<close> gives the empty
  buffer), raw access without bounds checking, and an exchange of the owned storage.
  A buffer is the list of its slots; a raw slot holds \<open>None\<close> until it is written.
  Nothing is assumed about what a fresh slot contains: reading it is an error.
\<close>

type_synonym 'a ArrayPtr = "'a option list"

definition ArrayPtr_new :: "nat \<Rightarrow> 'a ArrayPtr" where
  "ArrayPtr_new n = replicate n None"

definition load :: "'a ArrayPtr \<Rightarrow> nat \<Rightarrow> error + 'a" where
  "load p i =
     (if i < length p
      then (case p ! i of None \<Rightarrow> Inl uninitialised_read | Some x \<Rightarrow> Inr x)
      else Inl out_of_bounds)"

definition store :: "'a ArrayPtr \<Rightarrow> nat \<Rightarrow> 'a \<Rightarrow> error + 'a ArrayPtr" where
  "store p i x = (if i < length p then Inr (p[i := Some x]) else Inl out_of_bounds)"

subsection \<open>Reference parameters\<close>

text \<open>
  \<^verbatim>\<open>PushBack\<close> and \<^verbatim>\<open>Insert\<close> take the new element as \<^verbatim>\<open>const Type&\<close>, and the
  caller may bind it to an element of the very vector, as in \<^verbatim>\<open>v.PushBack(v[0])\<close>. A
  reference is therefore either bound to an object outside the vector, with its value,
  or to the element at an offset of the buffer that the vector owns when the call
  begins. It is read where the source reads it: \<open>read_reference\<close> takes the buffer the
  reference points into as it is at that moment, or \<open>None\<close> when that buffer has been
  released by then.
\<close>

datatype 'a reference = Object 'a | Element nat

fun read_reference :: "'a ArrayPtr option \<Rightarrow> 'a reference \<Rightarrow> error + 'a" where
  "read_reference target (Object x) = Inr x"
| "read_reference None (Element i) = Inl use_after_free"
| "read_reference (Some p) (Element i) = load p i"

subsection \<open>The algorithms of the standard library the source calls\<close>

text \<open>
  Each algorithm is the loop the standard gives for it, over offsets, one slot at a
  time and in the standard's direction. A range is its first offset and its length;
  the wrappers take \<open>first\<close> and \<open>last\<close> as the source writes them and refuse a range
  whose end lies before its start.
\<close>

fun fill_n :: "'a ArrayPtr \<Rightarrow> nat \<Rightarrow> nat \<Rightarrow> 'a \<Rightarrow> error + 'a ArrayPtr" where
  "fill_n p first 0 v = Inr p"
| "fill_n p first (Suc n) v =
     (case store p first v of
        Inl e \<Rightarrow> Inl e
      | Inr p' \<Rightarrow> fill_n p' (Suc first) n v)"

definition std_fill :: "'a ArrayPtr \<Rightarrow> nat \<Rightarrow> nat \<Rightarrow> 'a \<Rightarrow> error + 'a ArrayPtr" where
  "std_fill p first lst v =
     (if lst < first then Inl out_of_bounds else fill_n p first (lst - first) v)"

text \<open>\<^verbatim>\<open>std::copy\<close> and \<^verbatim>\<open>std::move\<close> from one buffer into another one.\<close>

fun copy_n :: "'a ArrayPtr \<Rightarrow> nat \<Rightarrow> nat \<Rightarrow> 'a ArrayPtr \<Rightarrow> nat \<Rightarrow> error + 'a ArrayPtr" where
  "copy_n src first 0 dst d = Inr dst"
| "copy_n src first (Suc n) dst d =
     (case load src first of
        Inl e \<Rightarrow> Inl e
      | Inr x \<Rightarrow>
          (case store dst d x of
             Inl e \<Rightarrow> Inl e
           | Inr dst' \<Rightarrow> copy_n src (Suc first) n dst' (Suc d)))"

definition std_copy :: "'a ArrayPtr \<Rightarrow> nat \<Rightarrow> nat \<Rightarrow> 'a ArrayPtr \<Rightarrow> nat \<Rightarrow> error + 'a ArrayPtr" where
  "std_copy src first lst dst d =
     (if lst < first then Inl out_of_bounds else copy_n src first (lst - first) dst d)"

text \<open>
  \<^verbatim>\<open>std::move(first, last, d_first)\<close> inside one buffer, as \<^verbatim>\<open>Erase\<close> uses it: front
  to back, every write visible to the reads after it.
\<close>

fun move_n :: "'a ArrayPtr \<Rightarrow> nat \<Rightarrow> nat \<Rightarrow> nat \<Rightarrow> error + 'a ArrayPtr" where
  "move_n p first 0 d = Inr p"
| "move_n p first (Suc n) d =
     (case load p first of
        Inl e \<Rightarrow> Inl e
      | Inr x \<Rightarrow>
          (case store p d x of
             Inl e \<Rightarrow> Inl e
           | Inr p' \<Rightarrow> move_n p' (Suc first) n (Suc d)))"

definition std_move_within :: "'a ArrayPtr \<Rightarrow> nat \<Rightarrow> nat \<Rightarrow> nat \<Rightarrow> error + 'a ArrayPtr" where
  "std_move_within p first lst d =
     (if lst < first then Inl out_of_bounds else move_n p first (lst - first) d)"

text \<open>
  \<^verbatim>\<open>std::copy_backward(first, last, d_last)\<close> inside one buffer, as \<^verbatim>\<open>Insert\<close> uses
  it: back to front, \<^verbatim>\<open>*(--d_last) = *(--last)\<close>.
\<close>

fun copy_backward_n :: "'a ArrayPtr \<Rightarrow> nat \<Rightarrow> nat \<Rightarrow> nat \<Rightarrow> error + 'a ArrayPtr" where
  "copy_backward_n p first 0 d_last = Inr p"
| "copy_backward_n p first (Suc n) d_last =
     (case load p (first + n) of
        Inl e \<Rightarrow> Inl e
      | Inr x \<Rightarrow>
          (if d_last = 0 then Inl out_of_bounds
           else (case store p (d_last - 1) x of
                   Inl e \<Rightarrow> Inl e
                 | Inr p' \<Rightarrow> copy_backward_n p' first n (d_last - 1))))"

definition std_copy_backward :: "'a ArrayPtr \<Rightarrow> nat \<Rightarrow> nat \<Rightarrow> nat \<Rightarrow> error + 'a ArrayPtr" where
  "std_copy_backward p first lst d_last =
     (if lst < first then Inl out_of_bounds
      else copy_backward_n p first (lst - first) d_last)"





subsection \<open>The class \<^verbatim>\<open>SimpleVector\<close>\<close>

text \<open>
  The three data members, in the order of the source. (A name of Isabelle cannot end
  with an underscore, hence \<open>items_m\<close> for \<^verbatim>\<open>items_\<close> and so on.)
\<close>

record 'a SimpleVector =
  items_m :: "'a ArrayPtr"
  size_m :: nat
  capacity_m :: nat

definition begin_it :: "'a SimpleVector \<Rightarrow> nat" where
  "begin_it v = 0"

definition end_it :: "'a SimpleVector \<Rightarrow> nat" where
  "end_it v = 0 + size_m v"

definition GetSize :: "'a SimpleVector \<Rightarrow> nat" where
  "GetSize v = size_m v"

definition GetCapacity :: "'a SimpleVector \<Rightarrow> nat" where
  "GetCapacity v = capacity_m v"

definition IsEmpty :: "'a SimpleVector \<Rightarrow> bool" where
  "IsEmpty v = (if size_m v = 0 then True else False)"

text \<open>
  The constructors. The default member initialisers give \<^verbatim>\<open>size_ = 0\<close> and
  \<^verbatim>\<open>capacity_ = 0\<close> to a member that the initialiser list of a constructor leaves out,
  and a default \<^verbatim>\<open>ArrayPtr\<close> owns no slot.
\<close>

definition SimpleVector_default :: "'a SimpleVector" where
  "SimpleVector_default = \<lparr>items_m = [], size_m = 0, capacity_m = 0\<rparr>"

text \<open>\<^verbatim>\<open>SimpleVector(size_t size, const Type& value)\<close>\<close>

definition SimpleVector_fill :: "nat \<Rightarrow> 'a \<Rightarrow> error + 'a SimpleVector" where
  "SimpleVector_fill n val =
     (let v = \<lparr>items_m = ArrayPtr_new n, size_m = n, capacity_m = n\<rparr> in
      case std_fill (items_m v) (begin_it v) (end_it v) val of
        Inl e \<Rightarrow> Inl e
      | Inr p \<Rightarrow> Inr (v\<lparr>items_m := p\<rparr>))"

text \<open>
  \<^verbatim>\<open>SimpleVector(size_t size)\<close> fills with \<^verbatim>\<open>Type{}\<close>; the value-initialised element
  of the element type is the parameter \<open>dflt\<close> here and in \<open>Resize\<close>.
\<close>

definition SimpleVector_count :: "'a \<Rightarrow> nat \<Rightarrow> error + 'a SimpleVector" where
  "SimpleVector_count dflt n =
     (let v = \<lparr>items_m = ArrayPtr_new n, size_m = n, capacity_m = n\<rparr> in
      case std_fill (items_m v) (begin_it v) (end_it v) dflt of
        Inl e \<Rightarrow> Inl e
      | Inr p \<Rightarrow> Inr (v\<lparr>items_m := p\<rparr>))"

text \<open>
  \<^verbatim>\<open>SimpleVector(std::initializer_list<Type> init)\<close>; the array behind the
  initialiser list is a buffer whose slots are all written.
\<close>

definition SimpleVector_init :: "'a list \<Rightarrow> error + 'a SimpleVector" where
  "SimpleVector_init init =
     (let v = \<lparr>items_m = ArrayPtr_new (length init), size_m = length init,
                capacity_m = length init\<rparr> in
      case std_copy (map Some init) 0 (length init) (items_m v) 0 of
        Inl e \<Rightarrow> Inl e
      | Inr p \<Rightarrow> Inr (v\<lparr>items_m := p\<rparr>))"

text \<open>
  \<^verbatim>\<open>SimpleVector(const SimpleVector& other) : items_(other.capacity_), size_(other.size_)\<close>:
  the initialiser list names no \<^verbatim>\<open>capacity_\<close>, which keeps its default \<open>0\<close>.
\<close>

definition SimpleVector_copy :: "'a SimpleVector \<Rightarrow> error + 'a SimpleVector" where
  "SimpleVector_copy other =
     (let v = \<lparr>items_m = ArrayPtr_new (capacity_m other), size_m = size_m other,
                capacity_m = 0\<rparr> in
      case std_copy (items_m other) (begin_it other) (end_it other) (items_m v) 0 of
        Inl e \<Rightarrow> Inl e
      | Inr p \<Rightarrow> Inr (v\<lparr>items_m := p\<rparr>))"

text \<open>
  \<^verbatim>\<open>swap\<close> exchanges the three members of two vectors; the result is the pair of
  \<^verbatim>\<open>*this\<close> and \<^verbatim>\<open>other\<close> after the call.
\<close>

definition swap :: "'a SimpleVector \<Rightarrow> 'a SimpleVector \<Rightarrow> 'a SimpleVector \<times> 'a SimpleVector" where
  "swap v other =
     (v\<lparr>items_m := items_m other, size_m := size_m other, capacity_m := capacity_m other\<rparr>,
      other\<lparr>items_m := items_m v, size_m := size_m v, capacity_m := capacity_m v\<rparr>)"

text \<open>
  \<^verbatim>\<open>SimpleVector(SimpleVector&& other) { swap(other); }\<close>: the new vector starts from
  the default member initialisers; the result is the new vector and the source after
  the call.
\<close>

definition SimpleVector_move :: "'a SimpleVector \<Rightarrow> 'a SimpleVector \<times> 'a SimpleVector" where
  "SimpleVector_move other = swap SimpleVector_default other"

text \<open>\<^verbatim>\<open>operator[]\<close>, with its \<^verbatim>\<open>assert(index < size_)\<close>.\<close>

definition op_index :: "'a SimpleVector \<Rightarrow> nat \<Rightarrow> error + 'a" where
  "op_index v index =
     (if index < size_m v then load (items_m v) index else Inl assertion_failed)"

text \<open>
  \<^verbatim>\<open>At\<close> returns what the call gives (the element or the exception) and the vector
  after the call.
\<close>

definition At :: "'a SimpleVector \<Rightarrow> nat \<Rightarrow> (error + 'a) \<times> 'a SimpleVector" where
  "At v index =
     (if index \<ge> size_m v then (Inl out_of_range, v)
      else (load (items_m v) index, v))"

definition Clear :: "'a SimpleVector \<Rightarrow> 'a SimpleVector" where
  "Clear v = v\<lparr>size_m := 0\<rparr>"

definition PopBack :: "'a SimpleVector \<Rightarrow> 'a SimpleVector" where
  "PopBack v = (if size_m v > 0 then v\<lparr>size_m := size_m v - 1\<rparr> else v)"

text \<open>
  \<^verbatim>\<open>Erase\<close> and \<^verbatim>\<open>Insert\<close> return the vector after the call and the iterator they
  return, \<^verbatim>\<open>&items_[index]\<close>, as an offset into the buffer the vector owns then.

  \<open>Insert\<close> and \<open>PushBack\<close> are the overloads that take \<^verbatim>\<open>const Type&\<close>. An
  \<^verbatim>\<open>ArrayPtr\<close> named \<^verbatim>\<open>temp\<close> holds the old buffer from the \<^verbatim>\<open>swap\<close> to the end of its
  block, where its destructor releases the buffer. \<^verbatim>\<open>Insert\<close> reads \<^verbatim>\<open>value\<close> inside
  that block (lines 169 and 182), so from the old buffer, still whole; in its branch
  without reallocation it reads \<^verbatim>\<open>value\<close> after \<^verbatim>\<open>std::copy_backward\<close> has shifted the
  elements (line 175). \<^verbatim>\<open>PushBack\<close> reads \<^verbatim>\<open>item\<close> at line 250, after the block of the
  reallocation has ended.

  The overloads that take \<^verbatim>\<open>Type&&\<close> have the same branches and move where these copy;
  on the vector they have the same effect whenever the argument is no element of the
  vector itself. They are not modelled apart.
\<close>

definition Erase :: "'a SimpleVector \<Rightarrow> nat \<Rightarrow> error + ('a SimpleVector \<times> nat)" where
  "Erase v pos =
     (if \<not> (pos \<ge> begin_it v \<and> pos < end_it v) then Inl assertion_failed
      else
        let index = pos - begin_it v in
        case std_move_within (items_m v) (begin_it v + index + 1) (end_it v)
               (begin_it v + index) of
          Inl e \<Rightarrow> Inl e
        | Inr p \<Rightarrow> Inr (v\<lparr>items_m := p, size_m := size_m v - 1\<rparr>, index))"

definition Insert ::
  "'a SimpleVector \<Rightarrow> nat \<Rightarrow> 'a reference \<Rightarrow> error + ('a SimpleVector \<times> nat)" where
  "Insert v pos val =
     (if \<not> (pos \<ge> begin_it v \<and> pos \<le> end_it v) then Inl assertion_failed
      else
        let index = pos - begin_it v in
        if capacity_m v = 0 then
          (let temp = ArrayPtr_new 1 in
           case read_reference (Some (items_m v)) val of
             Inl e \<Rightarrow> Inl e
           | Inr x \<Rightarrow>
               (case store temp 0 x of
                  Inl e \<Rightarrow> Inl e
                | Inr p \<Rightarrow>
                    Inr (v\<lparr>items_m := p, capacity_m := capacity_m v + 1,
                            size_m := size_m v + 1\<rparr>, index)))
        else if size_m v < capacity_m v then
          (case std_copy_backward (items_m v) index (size_m v) (size_m v + 1) of
             Inl e \<Rightarrow> Inl e
           | Inr p \<Rightarrow>
               (case read_reference (Some p) val of
                  Inl e \<Rightarrow> Inl e
                | Inr x \<Rightarrow>
                    (case store p index x of
                       Inl e \<Rightarrow> Inl e
                     | Inr p' \<Rightarrow>
                         Inr (v\<lparr>items_m := p', size_m := size_m v + 1\<rparr>, index))))
        else
          (let temp = ArrayPtr_new (capacity_m v * 2) in
           case std_copy (items_m v) (begin_it v) (begin_it v + index) temp 0 of
             Inl e \<Rightarrow> Inl e
           | Inr t1 \<Rightarrow>
               (case std_copy (items_m v) (begin_it v + index) (end_it v) t1 (index + 1) of
                  Inl e \<Rightarrow> Inl e
                | Inr t2 \<Rightarrow>
                    (case read_reference (Some (items_m v)) val of
                       Inl e \<Rightarrow> Inl e
                     | Inr x \<Rightarrow>
                         (case store t2 index x of
                            Inl e \<Rightarrow> Inl e
                          | Inr p \<Rightarrow>
                              Inr (v\<lparr>items_m := p, capacity_m := capacity_m v * 2,
                                      size_m := size_m v + 1\<rparr>, index))))))"

text \<open>
  In \<open>PushBack\<close> the first part gives the vector after lines 235 to 249 and the buffer
  that a reference to an element points into when line 250 reads it: the buffer of the
  vector where nothing was reallocated, no buffer where \<^verbatim>\<open>temp\<close> has released the old
  one.
\<close>

definition PushBack :: "'a SimpleVector \<Rightarrow> 'a reference \<Rightarrow> error + 'a SimpleVector" where
  "PushBack v item =
     (case
        (if size_m v < capacity_m v then Inr (v, Some (items_m v))
         else if capacity_m v = 0 then
           Inr (v\<lparr>items_m := ArrayPtr_new 1, capacity_m := capacity_m v + 1\<rparr>, None)
         else
           (let new_capacity = capacity_m v * 2;
                temp = ArrayPtr_new new_capacity in
            case std_copy (items_m v) (begin_it v) (end_it v) temp 0 of
              Inl e \<Rightarrow> Inl e
            | Inr p \<Rightarrow> Inr (v\<lparr>items_m := p, capacity_m := new_capacity\<rparr>, None)))
      of
        Inl e \<Rightarrow> Inl e
      | Inr (v1, old) \<Rightarrow>
          (case read_reference old item of
             Inl e \<Rightarrow> Inl e
           | Inr x \<Rightarrow>
               (case store (items_m v1) (size_m v1) x of
                  Inl e \<Rightarrow> Inl e
                | Inr p \<Rightarrow> Inr (v1\<lparr>items_m := p, size_m := size_m v1 + 1\<rparr>))))"

definition Reserve :: "'a SimpleVector \<Rightarrow> nat \<Rightarrow> error + 'a SimpleVector" where
  "Reserve v new_capacity =
     (if new_capacity > capacity_m v then
        (let temp = ArrayPtr_new new_capacity in
         case std_copy (items_m v) (begin_it v) (end_it v) temp 0 of
           Inl e \<Rightarrow> Inl e
         | Inr p \<Rightarrow> Inr (v\<lparr>items_m := p, capacity_m := new_capacity\<rparr>))
      else Inr v)"

text \<open>\<^verbatim>\<open>explicit SimpleVector(ReserveProxyObj obj) { Reserve(obj.GetCapacity()); }\<close>\<close>

definition SimpleVector_reserve :: "nat \<Rightarrow> error + 'a SimpleVector" where
  "SimpleVector_reserve capacity_to_reserve = Reserve SimpleVector_default capacity_to_reserve"

text \<open>
  \<^verbatim>\<open>Resize\<close>. Its \<^verbatim>\<open>for\<close> loops assign \<^verbatim>\<open>Type{}\<close> to the slots from \<^verbatim>\<open>size_\<close> up to
  \<^verbatim>\<open>new_size\<close>, which is the loop of \<open>fill_n\<close>; they are reached with
  \<^verbatim>\<open>size_ < new_size\<close> only.
\<close>

definition Resize :: "'a \<Rightarrow> 'a SimpleVector \<Rightarrow> nat \<Rightarrow> error + 'a SimpleVector" where
  "Resize dflt v new_size =
     (if new_size \<le> size_m v then Inr (v\<lparr>size_m := new_size\<rparr>)
      else if new_size \<le> capacity_m v then
        (case fill_n (items_m v) (begin_it v + size_m v) (new_size - size_m v) dflt of
           Inl e \<Rightarrow> Inl e
         | Inr p \<Rightarrow> Inr (v\<lparr>items_m := p, size_m := new_size\<rparr>))
      else if new_size > capacity_m v * 2 then
        (let temp = ArrayPtr_new new_size in
         case std_copy (items_m v) (begin_it v) (end_it v) temp 0 of
           Inl e \<Rightarrow> Inl e
         | Inr t1 \<Rightarrow>
             (case fill_n t1 (0 + size_m v) (new_size - size_m v) dflt of
                Inl e \<Rightarrow> Inl e
              | Inr t2 \<Rightarrow>
                  Inr (v\<lparr>items_m := t2, size_m := new_size, capacity_m := new_size\<rparr>)))
      else
        (let temp = ArrayPtr_new (capacity_m v * 2) in
         case std_copy (items_m v) (begin_it v) (end_it v) temp 0 of
           Inl e \<Rightarrow> Inl e
         | Inr t1 \<Rightarrow>
             (case fill_n t1 (0 + size_m v) (new_size - size_m v) dflt of
                Inl e \<Rightarrow> Inl e
              | Inr t2 \<Rightarrow>
                  Inr (v\<lparr>items_m := t2, size_m := new_size,
                          capacity_m := capacity_m v * 2\<rparr>))))"

subsection \<open>The relational operators\<close>







subsection \<open>Sequences of calls\<close>

text \<open>
  \<open>PushBack_all v items\<close> calls \<^verbatim>\<open>PushBack\<close> once for each argument, in order, and
  stops at the first call that fails. \<open>PopBack_times n v\<close> calls \<^verbatim>\<open>PopBack\<close> \<open>n\<close> times.
\<close>

fun PushBack_all :: "'a SimpleVector \<Rightarrow> 'a reference list \<Rightarrow> error + 'a SimpleVector" where
  "PushBack_all v [] = Inr v"
| "PushBack_all v (x # xs) =
     (case PushBack v x of Inl e \<Rightarrow> Inl e | Inr v' \<Rightarrow> PushBack_all v' xs)"

fun PopBack_times :: "nat \<Rightarrow> 'a SimpleVector \<Rightarrow> 'a SimpleVector" where
  "PopBack_times 0 v = v"
| "PopBack_times (Suc n) v = PopBack_times n (PopBack v)"

subsection \<open>The data model of the specification\<close>

text \<open>
  The visible sequence of a vector is what \<^verbatim>\<open>operator[]\<close> gives at the indices below
  \<^verbatim>\<open>GetSize()\<close>.
\<close>

definition contents :: "'a SimpleVector \<Rightarrow> (error + 'a) list" where
  "contents v = map (op_index v) [0..<GetSize v]"

text \<open>
  The invariant that the specification gives to its dynamic array: the buffer has
  \<^verbatim>\<open>capacity_\<close> slots, the size is at most the capacity, and the slots below the size
  have been written. \<open>elements\<close> is the sequence such a vector stands for.
\<close>

definition valid :: "'a SimpleVector \<Rightarrow> bool" where
  "valid v =
     (capacity_m v = length (items_m v) \<and> size_m v \<le> capacity_m v \<and>
      list_all (\<lambda>s. s \<noteq> None) (take (size_m v) (items_m v)))"

definition elements :: "'a SimpleVector \<Rightarrow> 'a list" where
  "elements v = map the (take (size_m v) (items_m v))"

text \<open>
  The part of the invariant that reading needs: the slots below the size exist and have
  been written. It says nothing of \<^verbatim>\<open>capacity_\<close>.
\<close>

definition readable :: "'a SimpleVector \<Rightarrow> bool" where
  "readable v =
     (size_m v \<le> length (items_m v) \<and>
      list_all (\<lambda>s. s \<noteq> None) (take (size_m v) (items_m v)))"

section \<open>Lemmas\<close>

subsection \<open>The loops over a buffer\<close>

lemma load_Some: "i < length p \<Longrightarrow> p ! i = Some x \<Longrightarrow> load p i = Inr x"
  by (simp add: load_def)

lemma store_ok: "i < length p \<Longrightarrow> store p i x = Inr (p[i := Some x])"
  by (simp add: store_def)

lemma fill_n_ok:
  "first + n \<le> length p \<Longrightarrow>
   fill_n p first n v = Inr (take first p @ replicate n (Some v) @ drop (first + n) p)"
proof (induction n arbitrary: p first)
  case 0
  then show ?case by simp
next
  case (Suc n)
  have lt: "first < length p" using Suc.prems by simp
  have "fill_n (p[first := Some v]) (Suc first) n v =
        Inr (take (Suc first) (p[first := Some v]) @ replicate n (Some v) @
             drop (Suc first + n) (p[first := Some v]))"
    using Suc.prems by (intro Suc.IH) simp
  moreover have "take (Suc first) (p[first := Some v]) = take first p @ [Some v]"
    using lt by (simp add: take_Suc_conv_app_nth)
  ultimately show ?case
    using lt by (simp add: store_ok replicate_app_Cons_same)
qed

lemma copy_n_ok:
  "first + n \<le> length src \<Longrightarrow> list_all (\<lambda>s. s \<noteq> None) (take n (drop first src)) \<Longrightarrow>
   d + n \<le> length dst \<Longrightarrow>
   copy_n src first n dst d = Inr (take d dst @ take n (drop first src) @ drop (d + n) dst)"
proof (induction n arbitrary: first dst d)
  case 0
  then show ?case by simp
next
  case (Suc n)
  have lt: "first < length src" "d < length dst" using Suc.prems by simp_all
  have split: "take (Suc n) (drop first src) = src ! first # take n (drop (Suc first) src)"
    using lt by (simp add: Cons_nth_drop_Suc [symmetric])
  obtain x where x: "src ! first = Some x"
    using Suc.prems(2) split by auto
  have rest: "list_all (\<lambda>s. s \<noteq> None) (take n (drop (Suc first) src))"
    using Suc.prems(2) split by simp
  have "copy_n src (Suc first) n (dst[d := Some x]) (Suc d) =
        Inr (take (Suc d) (dst[d := Some x]) @ take n (drop (Suc first) src) @
             drop (Suc d + n) (dst[d := Some x]))"
    using Suc.prems rest by (intro Suc.IH) simp_all
  moreover have "take (Suc d) (dst[d := Some x]) = take d dst @ [Some x]"
    using lt by (simp add: take_Suc_conv_app_nth)
  ultimately show ?case
    using lt x split by (simp add: load_Some store_ok)
qed

lemma move_n_ok:
  "first + n \<le> length p \<Longrightarrow> list_all (\<lambda>s. s \<noteq> None) (take n (drop first p)) \<Longrightarrow>
   d < first \<Longrightarrow>
   move_n p first n d = Inr (take d p @ take n (drop first p) @ drop (d + n) p)"
proof (induction n arbitrary: first p d)
  case 0
  then show ?case by simp
next
  case (Suc n)
  have lt: "first < length p" "d < length p" using Suc.prems by simp_all
  have split: "take (Suc n) (drop first p) = p ! first # take n (drop (Suc first) p)"
    using lt by (simp add: Cons_nth_drop_Suc [symmetric])
  obtain x where x: "p ! first = Some x"
    using Suc.prems(2) split by auto
  let ?p = "p[d := Some x]"
  have same: "drop (Suc first) ?p = drop (Suc first) p"
    using Suc.prems(3) by simp
  have rest: "list_all (\<lambda>s. s \<noteq> None) (take n (drop (Suc first) ?p))"
    using Suc.prems(2) split same by simp
  have "move_n ?p (Suc first) n (Suc d) =
        Inr (take (Suc d) ?p @ take n (drop (Suc first) ?p) @ drop (Suc d + n) ?p)"
    using Suc.prems rest by (intro Suc.IH) simp_all
  moreover have "take (Suc d) ?p = take d p @ [Some x]"
    using lt by (simp add: take_Suc_conv_app_nth)
  ultimately show ?case
    using lt x split same by (simp add: load_Some store_ok)
qed

lemma copy_backward_n_ok:
  "first + n \<le> d_last \<Longrightarrow> d_last \<le> length p \<Longrightarrow>
   list_all (\<lambda>s. s \<noteq> None) (take n (drop first p)) \<Longrightarrow>
   copy_backward_n p first n d_last =
     Inr (take (d_last - n) p @ take n (drop first p) @ drop d_last p)"
proof (induction n arbitrary: p d_last)
  case 0
  then show ?case by simp
next
  case (Suc n)
  have lt: "first + n < length p" "d_last - 1 < length p" "0 < d_last"
    using Suc.prems by simp_all
  have split: "take (Suc n) (drop first p) = take n (drop first p) @ [p ! (first + n)]"
    using lt by (simp add: take_Suc_conv_app_nth)
  obtain x where x: "p ! (first + n) = Some x"
    using Suc.prems(3) split by auto
  let ?p = "p[d_last - 1 := Some x]"
  have same: "take n (drop first ?p) = take n (drop first p)"
    using Suc.prems(1) by (simp add: drop_update_swap)
  have rest: "list_all (\<lambda>s. s \<noteq> None) (take n (drop first ?p))"
    using Suc.prems(3) split same by simp
  have "copy_backward_n ?p first n (d_last - 1) =
        Inr (take (d_last - 1 - n) ?p @ take n (drop first ?p) @ drop (d_last - 1) ?p)"
    using Suc.prems rest by (intro Suc.IH) simp_all
  moreover have "drop (d_last - 1) ?p = Some x # drop d_last p"
    using lt by (simp add: Cons_nth_drop_Suc [symmetric] upd_conv_take_nth_drop)
  moreover have "take (d_last - 1 - n) ?p = take (d_last - Suc n) p"
    by simp
  ultimately show ?case
    using lt x split same by (simp add: load_Some store_ok)
qed

lemma copy_n_app:
  "length D = length ys \<Longrightarrow>
   copy_n (A @ map Some ys @ B) (length A) (length ys) (C @ D @ E) (length C) =
     Inr (C @ map Some ys @ E)"
  by (subst copy_n_ok) (simp_all add: list_all_iff)

lemma move_n_app:
  "move_n (A @ s # map Some ys @ B) (Suc (length A)) (length ys) (length A) =
     Inr (A @ map Some ys @ last (s # map Some ys) # B)"
proof -
  have "drop (length ys) (s # map Some ys @ B) = last (s # map Some ys) # B"
    by (induction ys arbitrary: s) simp_all
  then show ?thesis
    by (subst move_n_ok) (simp_all add: list_all_iff)
qed

lemma copy_backward_n_app:
  "copy_backward_n (A @ map Some ys @ s # B) (length A) (length ys)
     (Suc (length A + length ys)) =
     Inr (A @ hd (map Some ys @ [s]) # map Some ys @ B)"
proof -
  have "take (Suc 0) (map Some ys @ s # B) = [hd (map Some ys @ [s])]"
    by (cases ys) simp_all
  then show ?thesis
    by (subst copy_backward_n_ok) (simp_all add: list_all_iff)
qed

subsection \<open>Vectors that satisfy the invariant\<close>

lemma map_Some_the: "list_all (\<lambda>s. s \<noteq> None) ys \<Longrightarrow> map Some (map the ys) = ys"
  by (induction ys) auto

lemma validE:
  assumes "valid v"
  obtains xs rest where "items_m v = map Some xs @ rest" "size_m v = length xs"
    "capacity_m v = length xs + length rest" "elements v = xs"
proof
  let ?xs = "elements v" and ?rest = "drop (size_m v) (items_m v)"
  have all: "list_all (\<lambda>s. s \<noteq> None) (take (size_m v) (items_m v))"
    and le: "size_m v \<le> length (items_m v)" and cap: "capacity_m v = length (items_m v)"
    using assms by (simp_all add: valid_def)
  show "items_m v = map Some ?xs @ ?rest"
    using map_Some_the [OF all] by (simp add: elements_def)
  show "size_m v = length ?xs" using le by (simp add: elements_def)
  show "capacity_m v = length ?xs + length ?rest" using le cap by (simp add: elements_def)
  show "elements v = ?xs" ..
qed

lemma validI:
  assumes "items_m v = map Some xs @ rest" "size_m v = length xs"
    "capacity_m v = length xs + length rest"
  shows "valid v" and "elements v = xs"
  using assms by (simp_all add: valid_def elements_def list_all_iff comp_def)

lemma load_append_Some: "i < length xs \<Longrightarrow> load (map Some xs @ rest) i = Inr (xs ! i)"
  by (simp add: load_def nth_append)

lemma op_index_valid: "valid v \<Longrightarrow> i < size_m v \<Longrightarrow> op_index v i = Inr (elements v ! i)"
  by (erule validE) (simp add: op_index_def load_append_Some)

lemma update_at_length:
  "(map Some xs @ s # rest)[length xs := y] = map Some xs @ y # rest"
  by (simp add: list_update_append)

lemma copy_n_prefix:
  "length xs \<le> length dst \<Longrightarrow>
   copy_n (map Some xs @ rest) 0 (length xs) dst 0 = Inr (map Some xs @ drop (length xs) dst)"
  by (subst copy_n_ok) (simp_all add: list_all_iff)

lemma copy_n_fresh:
  "length xs \<le> m \<Longrightarrow>
   copy_n (map Some xs @ rest) 0 (length xs) (replicate m None) 0 =
     Inr (map Some xs @ replicate (m - length xs) None)"
  by (simp add: copy_n_prefix)

lemma store_fresh:
  "0 < k \<Longrightarrow>
   store (map Some xs @ replicate k None) (length xs) x =
     Inr (map Some (xs @ [x]) @ replicate (k - 1) None)"
  by (cases k) (simp_all add: store_def update_at_length)

lemma PushBack_valid:
  assumes "valid v"
  shows "\<exists>v'. PushBack v (Object x) = Inr v' \<and> valid v' \<and> elements v' = elements v @ [x] \<and>
           capacity_m v' = (if size_m v < capacity_m v then capacity_m v
                            else if capacity_m v = 0 then 1 else capacity_m v * 2)"
proof -
  from assms obtain xs rest where r: "items_m v = map Some xs @ rest" "size_m v = length xs"
    "capacity_m v = length xs + length rest" "elements v = xs"
    by (rule validE)
  consider (room) "size_m v < capacity_m v" | (empty) "capacity_m v = 0"
    | (full) "\<not> size_m v < capacity_m v" "capacity_m v \<noteq> 0"
    by blast
  then show ?thesis
  proof cases
    case room
    then obtain s rest' where rest: "rest = s # rest'" using r by (cases rest) auto
    let ?v' = "v\<lparr>items_m := map Some (xs @ [x]) @ rest', size_m := size_m v + 1\<rparr>"
    have "PushBack v (Object x) = Inr ?v'"
      using room r rest by (simp add: PushBack_def store_def update_at_length)
    moreover have "valid ?v'" "elements ?v' = xs @ [x]"
      using r rest by (simp_all add: validI [where xs = "xs @ [x]" and rest = rest'])
    ultimately show ?thesis using room r by simp
  next
    case empty
    then have e: "xs = []" "rest = []" using r by simp_all
    let ?v' = "v\<lparr>items_m := [Some x], capacity_m := 1, size_m := 1\<rparr>"
    have "PushBack v (Object x) = Inr ?v'"
      using empty r e by (simp add: PushBack_def store_def ArrayPtr_new_def)
    moreover have "valid ?v'" "elements ?v' = xs @ [x]"
      using e by (simp_all add: validI [where xs = "[x]" and rest = "[]"])
    ultimately show ?thesis using empty r by simp
  next
    case full
    then have e: "rest = []" "xs \<noteq> []" using r by auto
    let ?n = "length xs"
    let ?v' = "v\<lparr>items_m := map Some (xs @ [x]) @ replicate (?n - 1) None,
                  capacity_m := ?n * 2, size_m := ?n + 1\<rparr>"
    have "copy_n (map Some xs) 0 ?n (replicate (?n * 2) None) 0 =
          Inr (map Some xs @ replicate ?n None)"
      using copy_n_fresh [of xs "?n * 2" "[]"] by simp
    moreover have "store (map Some xs @ replicate ?n None) ?n x =
          Inr (map Some (xs @ [x]) @ replicate (?n - 1) None)"
      using e by (intro store_fresh) simp
    ultimately have "PushBack v (Object x) = Inr ?v'"
      using full r e
      by (simp add: PushBack_def ArrayPtr_new_def std_copy_def begin_it_def end_it_def)
    moreover have "valid ?v'" "elements ?v' = xs @ [x]"
      using e by (simp_all add: validI [where xs = "xs @ [x]" and rest = "replicate (?n - 1) None"])
    ultimately show ?thesis using full r e by simp
  qed
qed

lemma split_at:
  assumes "k \<le> length xs"
  obtains ys zs where "xs = ys @ zs" "length ys = k"
  using assms by (metis append_take_drop_id length_take min.absorb2)

lemma store_app: "store (A @ s # B) (length A) x = Inr (A @ Some x # B)"
  by (simp add: store_def list_update_append)

lemma Insert_valid:
  assumes "valid v" and "k \<le> size_m v"
  shows "\<exists>v'. Insert v k (Object x) = Inr (v', k) \<and> valid v' \<and>
           elements v' = take k (elements v) @ x # drop k (elements v) \<and>
           capacity_m v' = (if capacity_m v = 0 then 1
                            else if size_m v < capacity_m v then capacity_m v
                            else capacity_m v * 2)"
proof -
  from assms(1) obtain xs rest where r: "items_m v = map Some xs @ rest"
    "size_m v = length xs" "capacity_m v = length xs + length rest" "elements v = xs"
    by (rule validE)
  have "k \<le> length xs" using assms(2) r by simp
  then obtain ys zs where s: "xs = ys @ zs" "length ys = k"
    by (rule split_at)
  let ?n = "length xs"
  have pos: "k \<ge> begin_it v \<and> k \<le> end_it v"
    using assms(2) by (simp add: begin_it_def end_it_def)
  consider (empty) "capacity_m v = 0" | (room) "capacity_m v \<noteq> 0" "size_m v < capacity_m v"
    | (full) "capacity_m v \<noteq> 0" "\<not> size_m v < capacity_m v"
    by blast
  then show ?thesis
  proof cases
    case empty
    then have e: "xs = []" "rest = []" "k = 0" using r assms(2) by simp_all
    let ?v' = "v\<lparr>items_m := [Some x], capacity_m := 1, size_m := 1\<rparr>"
    have "Insert v k (Object x) = Inr (?v', k)"
      using empty r e pos
      by (simp add: Insert_def store_def ArrayPtr_new_def begin_it_def)
    moreover have "valid ?v'" "elements ?v' = [x]"
      by (simp_all add: validI [where xs = "[x]" and rest = "[]"])
    ultimately show ?thesis using empty r e by simp
  next
    case room
    then obtain s0 rest' where rest: "rest = s0 # rest'" using r by (cases rest) auto
    let ?v' = "v\<lparr>items_m := map Some (ys @ x # zs) @ rest', size_m := size_m v + 1\<rparr>"
    have items: "items_m v = map Some ys @ map Some zs @ s0 # rest'"
      using r s rest by simp
    have "copy_backward_n (items_m v) k (length zs) (Suc (k + length zs)) =
          Inr (map Some ys @ hd (map Some zs @ [s0]) # map Some zs @ rest')"
      unfolding items using copy_backward_n_app [of "map Some ys" zs s0 rest'] s by simp
    moreover have "store (map Some ys @ hd (map Some zs @ [s0]) # map Some zs @ rest') k x =
          Inr (map Some ys @ Some x # map Some zs @ rest')"
      using store_app [of "map Some ys"] s by simp
    moreover have "size_m v - k = length zs" "size_m v = k + length zs"
      using r s by simp_all
    ultimately have "Insert v k (Object x) = Inr (?v', k)"
      using room pos
      by (simp add: Insert_def std_copy_backward_def begin_it_def)
    moreover have "valid ?v'" "elements ?v' = ys @ x # zs"
      using r s rest by (simp_all add: validI [where xs = "ys @ x # zs" and rest = rest'])
    ultimately show ?thesis using room r s by simp
  next
    case full
    then have e: "rest = []" "xs \<noteq> []" using r by auto
    let ?v' = "v\<lparr>items_m := map Some (ys @ x # zs) @ replicate (?n - 1) None,
                  capacity_m := ?n * 2, size_m := ?n + 1\<rparr>"
    have items: "items_m v = map Some ys @ map Some zs"
      using r s e by simp
    have n: "?n = k + length zs" "0 < ?n" using s e by auto
    have fresh1: "replicate (?n * 2) (None :: 'a option) =
          replicate k None @ replicate (?n * 2 - k) None"
      using n by (simp add: replicate_add [symmetric])
    have fresh2: "replicate (?n * 2 - k) (None :: 'a option) =
          None # replicate (length zs) None @ replicate (?n - 1) None"
      using n by (simp add: replicate_add [symmetric] replicate_Suc [symmetric] del: replicate_Suc)
    have "copy_n (items_m v) 0 k (replicate (?n * 2) None) 0 =
          Inr (map Some ys @ replicate (?n * 2 - k) None)"
      unfolding items fresh1
      using copy_n_app [of "replicate k None" ys "[]" "map Some zs" "[]" "replicate (?n * 2 - k) None"] s
      by simp
    moreover have "copy_n (items_m v) k (length zs) (map Some ys @ replicate (?n * 2 - k) None) (k + 1) =
          Inr (map Some ys @ None # map Some zs @ replicate (?n - 1) None)"
      unfolding items fresh2
      using copy_n_app [of "replicate (length zs) None" zs "map Some ys" "[]"
          "map Some ys @ [None]" "replicate (?n - 1) None"] s
      by simp
    moreover have "store (map Some ys @ None # map Some zs @ replicate (?n - 1) None) k x =
          Inr (map Some ys @ Some x # map Some zs @ replicate (?n - 1) None)"
      using store_app [of "map Some ys"] s by simp
    moreover have "size_m v - k = length zs" "size_m v = ?n" "capacity_m v = ?n"
      using r s e by simp_all
    ultimately have "Insert v k (Object x) = Inr (?v', k)"
      using full pos n
      by (auto simp add: Insert_def std_copy_def begin_it_def end_it_def ArrayPtr_new_def)
    moreover have "valid ?v'" "elements ?v' = ys @ x # zs"
      using r s n
      by (simp_all add: validI [where xs = "ys @ x # zs" and rest = "replicate (?n - 1) None"])
    ultimately show ?thesis using full r s e by simp
  qed
qed

lemma Erase_valid:
  assumes "valid v" and "k < size_m v"
  shows "\<exists>v'. Erase v k = Inr (v', k) \<and> valid v' \<and>
           elements v' = take k (elements v) @ drop (Suc k) (elements v) \<and>
           capacity_m v' = capacity_m v"
proof -
  from assms(1) obtain xs rest where r: "items_m v = map Some xs @ rest"
    "size_m v = length xs" "capacity_m v = length xs + length rest" "elements v = xs"
    by (rule validE)
  have "k \<le> length xs" using assms(2) r by simp
  then obtain ys zs where s: "xs = ys @ zs" "length ys = k"
    by (rule split_at)
  then obtain a zs' where z: "zs = a # zs'" using assms(2) r by (cases zs) auto
  let ?rest' = "last (Some a # map Some zs') # rest"
  let ?v' = "v\<lparr>items_m := map Some (ys @ zs') @ ?rest', size_m := size_m v - 1\<rparr>"
  have items: "items_m v = map Some ys @ Some a # map Some zs' @ rest"
    using r s z by simp
  have "move_n (items_m v) (Suc k) (length zs') k = Inr (map Some (ys @ zs') @ ?rest')"
    unfolding items using move_n_app [of "map Some ys" "Some a" zs' rest] s by simp
  moreover have "size_m v - Suc k = length zs'" using r s z by simp
  ultimately have "Erase v k = Inr (?v', k)"
    using assms(2)
    by (simp add: Erase_def std_move_within_def begin_it_def end_it_def)
  moreover have "valid ?v'" "elements ?v' = ys @ zs'"
    using r s z by (simp_all add: validI [where xs = "ys @ zs'" and rest = ?rest'])
  moreover have "drop (Suc k) xs = zs'" using s z by simp
  ultimately show ?thesis using r s z by simp
qed

lemma length_elements: "valid v \<Longrightarrow> length (elements v) = size_m v"
  by (erule validE) simp

lemma contents_valid: "valid v \<Longrightarrow> contents v = map Inr (elements v)"
  by (rule nth_equalityI) (simp_all add: contents_def GetSize_def length_elements op_index_valid)

lemma valid_default: "valid SimpleVector_default" "elements SimpleVector_default = []"
  by (simp_all add: valid_def elements_def SimpleVector_default_def)

lemma PushBack_all_valid:
  "valid v \<Longrightarrow>
   \<exists>v'. PushBack_all v (map Object xs) = Inr v' \<and> valid v' \<and> elements v' = elements v @ xs"
proof (induction xs arbitrary: v)
  case Nil
  then show ?case by simp
next
  case (Cons x xs)
  from PushBack_valid [OF Cons.prems, of x] obtain v1 where
    v1: "PushBack v (Object x) = Inr v1" "valid v1" "elements v1 = elements v @ [x]"
    by blast
  from Cons.IH [OF v1(2)] v1 show ?case by simp
qed

subsection \<open>What a call that returns has checked\<close>

lemma store_length: "store p i x = Inr p' \<Longrightarrow> i < length p \<and> length p' = length p"
  by (auto simp add: store_def split: if_splits)

lemma copy_n_length:
  "copy_n src first n dst d = Inr p \<Longrightarrow>
   length p = length dst \<and> (0 < n \<longrightarrow> d + n \<le> length dst)"
proof (induction n arbitrary: first dst d)
  case 0
  then show ?case by simp
next
  case (Suc n)
  from Suc.prems obtain x dst' where
    st: "store dst d x = Inr dst'" and rec: "copy_n src (Suc first) n dst' (Suc d) = Inr p"
    by (auto split: sum.splits)
  from store_length [OF st] Suc.IH [OF rec] show ?case
    by (cases n) simp_all
qed

subsection \<open>Vectors whose elements can be read\<close>

lemma valid_readable: "valid v \<Longrightarrow> readable v"
  by (simp add: valid_def readable_def)

lemma readableE:
  assumes "readable v"
  obtains xs rest where "items_m v = map Some xs @ rest" "size_m v = length xs"
    "elements v = xs"
proof
  let ?xs = "elements v" and ?rest = "drop (size_m v) (items_m v)"
  have all: "list_all (\<lambda>s. s \<noteq> None) (take (size_m v) (items_m v))"
    and le: "size_m v \<le> length (items_m v)"
    using assms by (simp_all add: readable_def)
  show "items_m v = map Some ?xs @ ?rest"
    using map_Some_the [OF all] by (simp add: elements_def)
  show "size_m v = length ?xs" using le by (simp add: elements_def)
  show "elements v = ?xs" ..
qed

lemma op_index_readable:
  "readable v \<Longrightarrow> i < size_m v \<Longrightarrow> op_index v i = Inr (elements v ! i)"
  by (erule readableE) (simp add: op_index_def load_append_Some)



subsection \<open>The comparison loops\<close>






subsection \<open>Resize, Reserve and the operations that only change the size\<close>

lemma fill_n_app:
  "fill_n (A @ D @ E) (length A) (length D) x = Inr (A @ replicate (length D) (Some x) @ E)"
  by (subst fill_n_ok) simp_all

lemma fill_n_fresh:
  "n \<le> m \<Longrightarrow>
   fill_n (A @ replicate m None) (length A) n x =
     Inr (A @ replicate n (Some x) @ replicate (m - n) None)"
  using fill_n_app [of A "replicate n None" "replicate (m - n) None" x]
  by (simp add: replicate_add [symmetric])

lemma Resize_valid:
  assumes "valid v"
  shows "\<exists>v'. Resize dflt v n = Inr v' \<and> valid v' \<and>
           elements v' = take n (elements v) @ replicate (n - size_m v) dflt \<and>
           size_m v' = n \<and>
           capacity_m v' = (if n \<le> capacity_m v then capacity_m v
                            else max n (2 * capacity_m v))"
proof -
  from assms obtain xs rest where r: "items_m v = map Some xs @ rest" "size_m v = length xs"
    "capacity_m v = length xs + length rest" "elements v = xs"
    by (rule validE)
  let ?s = "length xs"
  consider (shrink) "n \<le> size_m v" | (room) "size_m v < n" "n \<le> capacity_m v"
    | (exact) "capacity_m v < n" "capacity_m v * 2 < n"
    | (double) "capacity_m v < n" "\<not> capacity_m v * 2 < n"
    by linarith
  then show ?thesis
  proof cases
    case shrink
    let ?v' = "v\<lparr>size_m := n\<rparr>"
    have "items_m v = map Some (take n xs) @ (map Some (drop n xs) @ rest)"
      using r by (simp flip: map_append)
    then have "valid ?v'" "elements ?v' = take n xs"
      using r shrink
      by (simp_all add: validI [where xs = "take n xs" and rest = "map Some (drop n xs) @ rest"])
    moreover have "Resize dflt v n = Inr ?v'" using shrink by (simp add: Resize_def)
    ultimately show ?thesis using shrink r by simp
  next
    case room
    let ?k = "n - ?s"
    let ?xs' = "xs @ replicate ?k dflt"
    let ?v' = "v\<lparr>items_m := map Some ?xs' @ drop ?k rest, size_m := n\<rparr>"
    have "fill_n (map Some xs @ take ?k rest @ drop ?k rest) ?s (length (take ?k rest)) dflt =
          Inr (map Some xs @ replicate (length (take ?k rest)) (Some dflt) @ drop ?k rest)"
      using fill_n_app [of "map Some xs" "take ?k rest" "drop ?k rest" dflt] by simp
    moreover have "length (take ?k rest) = ?k" using room r by simp
    ultimately have "fill_n (items_m v) ?s ?k dflt = Inr (map Some ?xs' @ drop ?k rest)"
      using r by simp
    then have "Resize dflt v n = Inr ?v'"
      using room r by (simp add: Resize_def begin_it_def)
    moreover have "valid ?v'" "elements ?v' = ?xs'"
      using r room by (simp_all add: validI [where xs = ?xs' and rest = "drop ?k rest"])
    ultimately show ?thesis using room r by simp
  next
    case exact
    let ?k = "n - ?s"
    let ?xs' = "xs @ replicate ?k dflt"
    let ?v' = "v\<lparr>items_m := map Some ?xs', size_m := n, capacity_m := n\<rparr>"
    have "copy_n (items_m v) 0 ?s (replicate n None) 0 = Inr (map Some xs @ replicate ?k None)"
      using copy_n_fresh [of xs n rest] exact r by simp
    moreover have "fill_n (map Some xs @ replicate ?k None) ?s ?k dflt = Inr (map Some ?xs')"
      using fill_n_fresh [of ?k ?k "map Some xs" dflt] by simp
    ultimately have "Resize dflt v n = Inr ?v'"
      using exact r
      by (simp add: Resize_def begin_it_def end_it_def std_copy_def ArrayPtr_new_def)
    moreover have "valid ?v'" "elements ?v' = ?xs'"
      using r exact by (simp_all add: validI [where xs = ?xs' and rest = "[]"])
    ultimately show ?thesis using exact r by simp
  next
    case double
    let ?k = "n - ?s"
    let ?c = "capacity_m v * 2"
    let ?xs' = "xs @ replicate ?k dflt"
    let ?v' = "v\<lparr>items_m := map Some ?xs' @ replicate (?c - n) None, size_m := n,
                  capacity_m := ?c\<rparr>"
    have "copy_n (items_m v) 0 ?s (replicate ?c None) 0 =
          Inr (map Some xs @ replicate (?c - ?s) None)"
      using copy_n_fresh [of xs ?c rest] r by simp
    moreover have "fill_n (map Some xs @ replicate (?c - ?s) None) ?s ?k dflt =
          Inr (map Some ?xs' @ replicate (?c - n) None)"
      using fill_n_fresh [of ?k "?c - ?s" "map Some xs" dflt] double r by simp
    ultimately have "Resize dflt v n = Inr ?v'"
      using double r
      by (simp add: Resize_def begin_it_def end_it_def std_copy_def ArrayPtr_new_def)
    moreover have "valid ?v'" "elements ?v' = ?xs'"
      using r double
      by (simp_all add: validI [where xs = ?xs' and rest = "replicate (?c - n) None"])
    ultimately show ?thesis using double r by (simp add: max_def)
  qed
qed

lemma Reserve_valid:
  assumes "valid v"
  shows "\<exists>v'. Reserve v n = Inr v' \<and> valid v' \<and> elements v' = elements v \<and>
           size_m v' = size_m v \<and> capacity_m v' = max (capacity_m v) n"
proof (cases "n > capacity_m v")
  case True
  from assms obtain xs rest where r: "items_m v = map Some xs @ rest" "size_m v = length xs"
    "capacity_m v = length xs + length rest" "elements v = xs"
    by (rule validE)
  let ?v' = "v\<lparr>items_m := map Some xs @ replicate (n - length xs) None, capacity_m := n\<rparr>"
  have "Reserve v n = Inr ?v'"
    using True r copy_n_fresh [of xs n rest]
    by (simp add: Reserve_def std_copy_def begin_it_def end_it_def ArrayPtr_new_def)
  moreover have "valid ?v'" "elements ?v' = xs"
    using True r
    by (simp_all add: validI [where xs = xs and rest = "replicate (n - length xs) None"])
  ultimately show ?thesis using True r by simp
next
  case False
  then show ?thesis using assms by (simp add: Reserve_def)
qed

lemma PopBack_times_eq: "n \<le> size_m v \<Longrightarrow> PopBack_times n v = v\<lparr>size_m := size_m v - n\<rparr>"
  by (induction n arbitrary: v) (simp_all add: PopBack_def)

lemma valid_Clear: "valid v \<Longrightarrow> valid (Clear v) \<and> elements (Clear v) = []"
  by (simp add: valid_def elements_def Clear_def)

lemma valid_PopBack:
  assumes "valid v"
  shows "valid (PopBack v) \<and> elements (PopBack v) = butlast (elements v)"
proof -
  have "set (take (size_m v - 1) (items_m v)) \<subseteq> set (take (size_m v) (items_m v))"
    by (rule set_take_subset_set_take) simp
  then have "valid (PopBack v)"
    using assms by (auto simp add: valid_def PopBack_def list_all_iff)
  moreover have "elements (PopBack v) = butlast (elements v)"
    using assms
    by (cases "size_m v")
      (simp_all add: valid_def elements_def PopBack_def butlast_take map_butlast [symmetric])
  ultimately show ?thesis ..
qed

lemma valid_swap:
  "valid v \<Longrightarrow> valid other \<Longrightarrow> valid (fst (swap v other)) \<and> valid (snd (swap v other))"
  by (simp add: swap_def valid_def)

subsection \<open>The constructors\<close>

lemma fill_n_whole:
  "fill_n (replicate n None) 0 n x = Inr (replicate n (Some x))"
  using fill_n_fresh [of n n "[]" x] by simp

lemma valid_SimpleVector_fill:
  "\<exists>v. SimpleVector_fill n x = Inr v \<and> valid v \<and> elements v = replicate n x \<and> capacity_m v = n"
proof -
  let ?v = "\<lparr>items_m = map Some (replicate n x), size_m = n, capacity_m = n\<rparr>"
  have "SimpleVector_fill n x = Inr ?v"
    by (simp add: SimpleVector_fill_def std_fill_def begin_it_def end_it_def ArrayPtr_new_def
        fill_n_whole)
  moreover have "valid ?v" "elements ?v = replicate n x"
    by (simp_all add: validI [where xs = "replicate n x" and rest = "[]"])
  ultimately show ?thesis by simp
qed

lemma valid_SimpleVector_count:
  "\<exists>v. SimpleVector_count dflt n = Inr v \<and> valid v \<and> elements v = replicate n dflt \<and>
       capacity_m v = n"
  using valid_SimpleVector_fill [of n dflt]
  by (simp add: SimpleVector_count_def SimpleVector_fill_def)

lemma valid_SimpleVector_init:
  "\<exists>v. SimpleVector_init init = Inr v \<and> valid v \<and> elements v = init \<and>
       capacity_m v = length init"
proof -
  let ?v = "\<lparr>items_m = map Some init, size_m = length init, capacity_m = length init\<rparr>"
  have "SimpleVector_init init = Inr ?v"
    using copy_n_fresh [of init "length init" "[]"]
    by (simp add: SimpleVector_init_def std_copy_def ArrayPtr_new_def)
  moreover have "valid ?v" "elements ?v = init"
    by (simp_all add: validI [where xs = init and rest = "[]"])
  ultimately show ?thesis by simp
qed

lemma valid_SimpleVector_reserve:
  "\<exists>v. SimpleVector_reserve n = Inr v \<and> valid v \<and> elements v = [] \<and> capacity_m v = n"
proof -
  have "capacity_m (SimpleVector_default :: 'a SimpleVector) = 0"
    by (simp add: SimpleVector_default_def)
  then show ?thesis
    using Reserve_valid [OF valid_default(1), of n]
    by (auto simp add: SimpleVector_reserve_def valid_default(2))
qed

lemma valid_SimpleVector_move:
  "valid v \<Longrightarrow> valid (fst (SimpleVector_move v)) \<and> valid (snd (SimpleVector_move v))"
  using valid_swap [OF valid_default(1)] by (simp add: SimpleVector_move_def)

lemma valid_size_le_capacity: "valid v \<Longrightarrow> GetSize v \<le> GetCapacity v"
  by (simp add: valid_def GetSize_def GetCapacity_def)

lemma copy_valid:
  assumes "valid v"
  shows "\<exists>c. SimpleVector_copy v = Inr c \<and>
           c = \<lparr>items_m = map Some (elements v) @ replicate (capacity_m v - size_m v) None,
                size_m = size_m v, capacity_m = 0\<rparr>"
proof -
  from assms obtain xs rest where r: "items_m v = map Some xs @ rest" "size_m v = length xs"
    "capacity_m v = length xs + length rest" "elements v = xs"
    by (rule validE)
  have "copy_n (map Some xs @ rest) 0 (length xs) (replicate (length xs + length rest) None) 0 =
        Inr (map Some xs @ replicate (length rest) None)"
    using copy_n_fresh [of xs "length xs + length rest" rest] by simp
  then show ?thesis
    using r by (simp add: SimpleVector_copy_def ArrayPtr_new_def std_copy_def begin_it_def end_it_def)
qed

lemma copy_not_valid:
  assumes "valid v" and "0 < GetSize v" and "SimpleVector_copy v = Inr c"
  shows "\<not> GetSize c \<le> GetCapacity c"
  using copy_valid [OF assms(1)] assms(2,3) by (auto simp add: GetSize_def GetCapacity_def)

subsection \<open>What the operations do on a valid vector\<close>

text \<open>
  On a vector that satisfies the invariant, and for an argument that is no element of
  the vector, the operations do what the specification says of them.
\<close>

lemma PushBack_all_objects:
  "\<exists>v. PushBack_all SimpleVector_default (map Object values) = Inr v \<and> GetSize v = length values \<and>
       (\<forall>i<length values. op_index v i = Inr (values ! i))"
proof -
  from PushBack_all_valid [OF valid_default(1), of "values"] obtain v where
    v: "PushBack_all SimpleVector_default (map Object values) = Inr v" "valid v" "elements v = values"
    by (auto simp add: valid_default(2))
  have "size_m v = length values" using length_elements [OF v(2)] v(3) by simp
  then show ?thesis using v by (auto simp add: GetSize_def op_index_valid)
qed

lemma PushBack_capacity_valid:
  "(valid v \<longrightarrow> (\<exists>v'. PushBack v (Object x) = Inr v')) \<and>
   (\<forall>v'. PushBack v item = Inr v' \<longrightarrow>
      GetSize v' \<le> GetCapacity v' \<and>
      (GetSize v = GetCapacity v \<and> 0 < GetCapacity v \<longrightarrow>
         GetCapacity v' = 2 * GetCapacity v) \<and>
      (GetCapacity v = 0 \<longrightarrow> GetCapacity v' = 1))"
proof (intro conjI allI impI)
  assume "valid v"
  then show "\<exists>v'. PushBack v (Object x) = Inr v'" using PushBack_valid [of v x] by blast
next
  fix v' assume p: "PushBack v item = Inr v'"
  show "GetSize v' \<le> GetCapacity v'"
    using p
    by (auto simp add: PushBack_def GetSize_def GetCapacity_def ArrayPtr_new_def std_copy_def
        begin_it_def end_it_def Let_def
        split: if_splits sum.splits dest!: store_length copy_n_length)
  show "GetCapacity v' = 2 * GetCapacity v" if "GetSize v = GetCapacity v \<and> 0 < GetCapacity v"
    using p that
    by (auto simp add: PushBack_def GetSize_def GetCapacity_def Let_def
        split: if_splits sum.splits)
  show "GetCapacity v' = 1" if "GetCapacity v = 0"
    using p that
    by (auto simp add: PushBack_def GetSize_def GetCapacity_def Let_def
        split: if_splits sum.splits)
qed

lemma Insert_Erase_valid:
  assumes "valid v" and "k \<le> GetSize v"
  shows "\<exists>v1 pos v2 pos'.
           Insert v (begin_it v + k) (Object x) = Inr (v1, pos) \<and> Erase v1 pos = Inr (v2, pos') \<and>
           GetSize v2 = GetSize v \<and> contents v2 = contents v"
proof -
  have k: "k \<le> size_m v" using assms(2) by (simp add: GetSize_def)
  from Insert_valid [OF assms(1) k, of x] obtain v1 where
    v1: "Insert v k (Object x) = Inr (v1, k)" "valid v1"
      "elements v1 = take k (elements v) @ x # drop k (elements v)"
    by blast
  have "length (elements v1) = Suc (size_m v)"
    using v1(3) k length_elements [OF assms(1)] by simp
  then have k1: "k < size_m v1" using length_elements [OF v1(2)] k by simp
  from Erase_valid [OF v1(2) k1] obtain v2 where
    v2: "Erase v1 k = Inr (v2, k)" "valid v2"
      "elements v2 = take k (elements v1) @ drop (Suc k) (elements v1)"
    by blast
  have e: "elements v2 = elements v"
    using v2(3) v1(3) k length_elements [OF assms(1)] by simp
  then have "size_m v2 = size_m v"
    using length_elements [OF v2(2)] length_elements [OF assms(1)] by simp
  then show ?thesis
    using v1 v2 e assms(1) by (simp add: contents_valid GetSize_def begin_it_def)
qed

lemma Resize_grows_valid:
  assumes "valid v" and "GetCapacity v < new_size"
  shows "\<exists>v'. Resize dflt v new_size = Inr v' \<and>
           GetCapacity v' = max new_size (2 * GetCapacity v) \<and>
           GetSize v' = new_size \<and>
           contents v' = contents v @ replicate (new_size - GetSize v) (Inr dflt)"
proof -
  from Resize_valid [OF assms(1), of dflt new_size] obtain v' where
    v': "Resize dflt v new_size = Inr v'" "valid v'"
      "elements v' = take new_size (elements v) @ replicate (new_size - size_m v) dflt"
      "size_m v' = new_size"
      "capacity_m v' = (if new_size \<le> capacity_m v then capacity_m v
                        else max new_size (2 * capacity_m v))"
    by blast
  have "size_m v \<le> capacity_m v" using assms(1) by (simp add: valid_def)
  then have "take new_size (elements v) = elements v"
    using assms(2) length_elements [OF assms(1)] by (simp add: GetCapacity_def)
  then show ?thesis
    using v' assms by (simp add: contents_valid GetSize_def GetCapacity_def)
qed

lemma copy_constructor_valid:
  assumes "valid v"
  shows "\<exists>c. SimpleVector_copy v = Inr c \<and> GetSize c = GetSize v \<and> contents c = contents v \<and>
           GetCapacity c = 0 \<and>
           items_m c = take (GetSize v) (items_m v) @ replicate (GetCapacity v - GetSize v) None"
proof -
  from copy_valid [OF assms] obtain c where
    c: "SimpleVector_copy v = Inr c"
       "c = \<lparr>items_m = map Some (elements v) @ replicate (capacity_m v - size_m v) None,
             size_m = size_m v, capacity_m = 0\<rparr>"
    by blast
  from assms obtain xs rest where r: "items_m v = map Some xs @ rest" "size_m v = length xs"
    "capacity_m v = length xs + length rest" "elements v = xs"
    by (rule validE)
  have "contents c = map Inr xs"
    using c(2) r by (auto simp add: contents_def GetSize_def op_index_def load_append_Some
        intro!: nth_equalityI)
  then show ?thesis
    using c r contents_valid [OF assms] by (simp add: GetSize_def GetCapacity_def)
qed

subsection \<open>Arguments that are elements of the vector\<close>

text \<open>
  Without reallocation \<^verbatim>\<open>Insert(begin(), v[2])\<close> on \<open>{1, 2, 3}\<close> stores \<open>2\<close>, the element
  that the shift has brought to offset \<open>2\<close>; with reallocation it stores \<open>3\<close>, read from
  the old buffer. \<^verbatim>\<open>PushBack(v[0])\<close> without reallocation stores \<open>v[0]\<close>.
\<close>

lemma own_element_arguments:
  "Insert \<lparr>items_m = [Some 1, Some 2, Some (3::int), None], size_m = 3, capacity_m = 4\<rparr> 0
     (Element 2) =
     Inr (\<lparr>items_m = [Some 2, Some 1, Some 2, Some 3], size_m = 4, capacity_m = 4\<rparr>, 0) \<and>
   Insert \<lparr>items_m = [Some 1, Some 2, Some (3::int)], size_m = 3, capacity_m = 3\<rparr> 0
     (Element 2) =
     Inr (\<lparr>items_m = [Some 3, Some 1, Some 2, Some 3, None, None], size_m = 4,
           capacity_m = 6\<rparr>, 0) \<and>
   PushBack \<lparr>items_m = [Some 1, Some 2, Some (3::int), None], size_m = 3, capacity_m = 4\<rparr>
     (Element 0) =
     Inr \<lparr>items_m = [Some 1, Some 2, Some 3, Some 1], size_m = 4, capacity_m = 4\<rparr>"
  by (simp add: Insert_def PushBack_def ArrayPtr_new_def std_copy_def std_copy_backward_def
      begin_it_def end_it_def load_def store_def eval_nat_numeral)

section \<open>The claims\<close>

text \<open>
  A failing call of the model (\<open>Inl\<close>) is never counted as meeting a claim. Where a
  claim holds, its theorem shows that the call returns; where the code departs from a
  claim, its theorem computes what the code does at an input that shows it.
\<close>

subsection \<open>C1: the size never exceeds the capacity\<close>

text \<open>
  C1. After every public constructor and operation, \<open>0 \<le> GetSize() \<le> GetCapacity()\<close>.
  The lemmas above show it for the default, count, count and value, initialiser-list,
  reserving and move constructors and for \<^verbatim>\<open>PushBack\<close>, \<^verbatim>\<open>PopBack\<close>, \<^verbatim>\<open>Insert\<close>,
  \<^verbatim>\<open>Erase\<close>, \<^verbatim>\<open>Clear\<close>, \<^verbatim>\<open>Reserve\<close>, \<^verbatim>\<open>Resize\<close> and \<^verbatim>\<open>swap\<close>, each of which makes or
  keeps a valid vector (\<^verbatim>\<open>PushBack\<close> and \<^verbatim>\<open>Insert\<close> for an argument that is no element
  of the vector). The copy constructor does not (lemma \<open>copy_not_valid\<close>): the
  vector built from the list \<open>{1, 2, 3}\<close> is copied into a vector of size \<open>3\<close> and
  capacity \<open>0\<close>.
\<close>

theorem copy_constructor_breaks_invariant:
  "SimpleVector_init [1, 2, 3 :: int] =
     Inr \<lparr>items_m = [Some 1, Some 2, Some 3], size_m = 3, capacity_m = 3\<rparr> \<and>
   SimpleVector_copy \<lparr>items_m = [Some 1, Some 2, Some (3::int)], size_m = 3, capacity_m = 3\<rparr> =
     Inr \<lparr>items_m = [Some 1, Some 2, Some 3], size_m = 3, capacity_m = 0\<rparr> \<and>
   GetSize \<lparr>items_m = [Some 1, Some 2, Some (3::int)], size_m = 3, capacity_m = 0\<rparr> = 3 \<and>
   GetCapacity \<lparr>items_m = [Some 1, Some 2, Some (3::int)], size_m = 3, capacity_m = 0\<rparr> = 0 \<and>
   \<not> GetSize \<lparr>items_m = [Some 1, Some 2, Some (3::int)], size_m = 3, capacity_m = 0\<rparr>
       \<le> GetCapacity \<lparr>items_m = [Some 1, Some 2, Some (3::int)], size_m = 3, capacity_m = 0\<rparr>"
  by (simp add: SimpleVector_init_def SimpleVector_copy_def ArrayPtr_new_def std_copy_def
      begin_it_def end_it_def load_def store_def GetSize_def GetCapacity_def eval_nat_numeral)

subsection \<open>C2: a sequence of PushBack calls\<close>

text \<open>
  C2. After \<open>N\<close> calls of \<^verbatim>\<open>PushBack\<close> on a default-constructed vector the size should be
  \<open>N\<close> and element \<open>i\<close> the \<open>i\<close>-th pushed value. It is so when no argument is an element
  of the vector (lemma \<open>PushBack_all_objects\<close>). It is not so for
  \<^verbatim>\<open>v.PushBack(7); v.PushBack(v[0]);\<close>: the first call returns the vector \<open>{7}\<close> of
  capacity \<open>1\<close>, in which \<open>v[0]\<close> is \<open>7\<close>; the second call reallocates, releases the buffer
  that its argument refers to, and reads the argument after that.
\<close>

theorem PushBack_own_element:
  "PushBack SimpleVector_default (Object (7::int)) =
     Inr \<lparr>items_m = [Some 7], size_m = 1, capacity_m = 1\<rparr> \<and>
   op_index \<lparr>items_m = [Some (7::int)], size_m = 1, capacity_m = 1\<rparr> 0 = Inr 7 \<and>
   PushBack \<lparr>items_m = [Some (7::int)], size_m = 1, capacity_m = 1\<rparr> (Element 0) =
     Inl use_after_free \<and>
   PushBack_all SimpleVector_default [Object (7::int), Element 0] = Inl use_after_free"
  by (simp add: PushBack_def SimpleVector_default_def ArrayPtr_new_def std_copy_def
      begin_it_def end_it_def op_index_def load_def store_def eval_nat_numeral)

subsection \<open>C3: the capacity after PushBack\<close>

text \<open>
  C3. After any \<^verbatim>\<open>PushBack\<close> the capacity should be at least the size, with capacity
  \<open>2C\<close> after a full vector of capacity \<open>C > 0\<close> and \<open>1\<close> after capacity \<open>0\<close>. It is so on
  every valid vector (lemma \<open>PushBack_capacity_valid\<close>). It is not so on the copy of
  \<open>{1, 2, 3}\<close>, which has size \<open>3\<close> and capacity \<open>0\<close>: \<^verbatim>\<open>PushBack(4)\<close> takes the branch of
  capacity \<open>0\<close>, installs a buffer of one slot and writes the new element to slot \<open>3\<close>,
  outside of it.
\<close>

theorem PushBack_on_copy:
  "SimpleVector_copy \<lparr>items_m = [Some 1, Some 2, Some (3::int)], size_m = 3, capacity_m = 3\<rparr> =
     Inr \<lparr>items_m = [Some 1, Some 2, Some 3], size_m = 3, capacity_m = 0\<rparr> \<and>
   GetSize \<lparr>items_m = [Some 1, Some 2, Some (3::int)], size_m = 3, capacity_m = 0\<rparr> = 3 \<and>
   GetCapacity \<lparr>items_m = [Some 1, Some 2, Some (3::int)], size_m = 3, capacity_m = 0\<rparr> = 0 \<and>
   PushBack \<lparr>items_m = [Some 1, Some 2, Some (3::int)], size_m = 3, capacity_m = 0\<rparr> (Object 4) =
     Inl out_of_bounds \<and>
   store (ArrayPtr_new 1) 3 (4::int) = Inl out_of_bounds"
  by (simp add: SimpleVector_copy_def PushBack_def ArrayPtr_new_def std_copy_def begin_it_def
      end_it_def GetSize_def GetCapacity_def load_def store_def eval_nat_numeral)

subsection \<open>C4: Insert, then Erase at the iterator it returned\<close>

text \<open>
  C4. \<^verbatim>\<open>Erase\<close> on the iterator that \<^verbatim>\<open>Insert(begin() + k, x)\<close> returned should restore
  the sequence. It does on every valid vector (lemma \<open>Insert_Erase_valid\<close>). It does not
  on the copy of \<open>{1, 2, 3}\<close>, of size \<open>3\<close> and capacity \<open>0\<close>: \<^verbatim>\<open>Insert\<close> takes the branch of
  capacity \<open>0\<close>, which replaces the buffer by one slot holding \<open>x\<close> and makes the size
  \<open>4\<close>. With \<open>k = 1\<close>, \<^verbatim>\<open>Erase\<close> then reads slots \<open>2\<close> and \<open>3\<close> of that buffer. With \<open>k = 3\<close>,
  \<^verbatim>\<open>Erase\<close> returns a vector of size \<open>3\<close> whose buffer is the one slot: its first element
  is \<open>x\<close>, the other two are outside the buffer, and \<open>{1, 2, 3}\<close> is gone.
\<close>

theorem Insert_Erase_on_copy:
  "Insert \<lparr>items_m = [Some 1, Some 2, Some (3::int)], size_m = 3, capacity_m = 0\<rparr> 1 (Object 9) =
     Inr (\<lparr>items_m = [Some 9], size_m = 4, capacity_m = 1\<rparr>, 1) \<and>
   Erase \<lparr>items_m = [Some (9::int)], size_m = 4, capacity_m = 1\<rparr> 1 = Inl out_of_bounds \<and>
   Insert \<lparr>items_m = [Some 1, Some 2, Some (3::int)], size_m = 3, capacity_m = 0\<rparr> 3 (Object 9) =
     Inr (\<lparr>items_m = [Some 9], size_m = 4, capacity_m = 1\<rparr>, 3) \<and>
   Erase \<lparr>items_m = [Some (9::int)], size_m = 4, capacity_m = 1\<rparr> 3 =
     Inr (\<lparr>items_m = [Some 9], size_m = 3, capacity_m = 1\<rparr>, 3) \<and>
   contents \<lparr>items_m = [Some (9::int)], size_m = 3, capacity_m = 1\<rparr> =
     [Inr 9, Inl out_of_bounds, Inl out_of_bounds] \<and>
   contents \<lparr>items_m = [Some 1, Some 2, Some (3::int)], size_m = 3, capacity_m = 0\<rparr> =
     [Inr 1, Inr 2, Inr 3]"
  by (simp add: Insert_def Erase_def ArrayPtr_new_def std_move_within_def begin_it_def
      end_it_def contents_def GetSize_def op_index_def load_def store_def eval_nat_numeral
      upt_rec)

subsection \<open>C5: checked access\<close>

text \<open>
  C5. For every vector and every index, \<^verbatim>\<open>At(index)\<close> fails with the out-of-range error
  exactly when \<open>index \<ge> GetSize()\<close>; below the size it gives what \<^verbatim>\<open>operator[]\<close> gives at
  that index, which is the element there when the elements can be read; in particular
  \<^verbatim>\<open>At(GetSize())\<close> always fails, on an empty vector too; and \<^verbatim>\<open>At\<close>, failing or not,
  leaves the vector as it was. No hypothesis on the vector is needed.
\<close>

theorem At_checked:
  "(fst (At v index) = Inl out_of_range \<longleftrightarrow> index \<ge> GetSize v) \<and>
   (index < GetSize v \<longrightarrow> fst (At v index) = op_index v index) \<and>
   (readable v \<and> index < GetSize v \<longrightarrow> fst (At v index) = Inr (elements v ! index)) \<and>
   fst (At v (GetSize v)) = Inl out_of_range \<and>
   snd (At v index) = v"
proof -
  have same: "fst (At v index) = op_index v index" if "index < GetSize v"
    using that by (simp add: At_def GetSize_def op_index_def)
  have "fst (At v index) = Inl out_of_range \<longleftrightarrow> index \<ge> GetSize v"
    by (simp add: At_def GetSize_def load_def split: option.splits)
  moreover have "fst (At v index) = Inr (elements v ! index)"
    if "readable v \<and> index < GetSize v"
    using that same op_index_readable [of v index] by (simp add: GetSize_def)
  moreover have "fst (At v (GetSize v)) = Inl out_of_range" "snd (At v index) = v"
    by (simp_all add: At_def GetSize_def)
  ultimately show ?thesis using same by blast
qed

theorem At_checked_witness:
  "fst (At \<lparr>items_m = [Some 4, Some 5, None :: int option], size_m = 2, capacity_m = 3\<rparr> 1) = Inr 5 \<and>
   op_index \<lparr>items_m = [Some 4, Some 5, None :: int option], size_m = 2, capacity_m = 3\<rparr> 1 = Inr 5 \<and>
   fst (At \<lparr>items_m = [Some 4, Some 5, None :: int option], size_m = 2, capacity_m = 3\<rparr> 2) =
     Inl out_of_range \<and>
   snd (At \<lparr>items_m = [Some 4, Some 5, None :: int option], size_m = 2, capacity_m = 3\<rparr> 2) =
     \<lparr>items_m = [Some 4, Some 5, None], size_m = 2, capacity_m = 3\<rparr> \<and>
   fst (At (SimpleVector_default :: int SimpleVector) 0) = Inl out_of_range"
  using At_checked [of "\<lparr>items_m = [Some 4, Some 5, None :: int option], size_m = 2, capacity_m = 3\<rparr>" 1]
    At_checked [of "\<lparr>items_m = [Some 4, Some 5, None :: int option], size_m = 2, capacity_m = 3\<rparr>" 2]
    At_checked [of "SimpleVector_default :: int SimpleVector" 0]
  by (simp add: GetSize_def op_index_def load_def SimpleVector_default_def readable_def
      elements_def)

subsection \<open>C6: Resize beyond the capacity\<close>

text \<open>
  C6. \<^verbatim>\<open>Resize(new_size)\<close> with \<open>new_size\<close> above the capacity \<open>c\<close> should give capacity
  \<open>max new_size (2 * c)\<close>, size \<open>new_size\<close>, the old elements and then default values. It
  does on every valid vector (lemma \<open>Resize_grows_valid\<close>). It does not on the copy of
  \<open>{1, 2, 3}\<close>, of size \<open>3\<close> and capacity \<open>0\<close>: \<open>2\<close> is above the capacity, and \<^verbatim>\<open>Resize(2)\<close>
  takes the first branch, which only sets the size; the capacity stays \<open>0\<close> where the
  claim has \<open>2\<close>.
\<close>

theorem Resize_on_copy:
  "GetCapacity \<lparr>items_m = [Some 1, Some 2, Some (3::int)], size_m = 3, capacity_m = 0\<rparr> < 2 \<and>
   Resize 0 \<lparr>items_m = [Some 1, Some 2, Some (3::int)], size_m = 3, capacity_m = 0\<rparr> 2 =
     Inr \<lparr>items_m = [Some 1, Some 2, Some 3], size_m = 2, capacity_m = 0\<rparr> \<and>
   GetCapacity \<lparr>items_m = [Some 1, Some 2, Some (3::int)], size_m = 2, capacity_m = 0\<rparr> = 0 \<and>
   max 2 (2 * GetCapacity
     \<lparr>items_m = [Some 1, Some 2, Some (3::int)], size_m = 3, capacity_m = 0\<rparr>) = 2"
  by (simp add: Resize_def GetCapacity_def)

subsection \<open>C7: Resize below the size\<close>

text \<open>
  C7 says that \<^verbatim>\<open>Resize(n)\<close> with \<open>n < GetSize()\<close> is equivalent to \<open>n\<close> calls of
  \<^verbatim>\<open>PopBack()\<close>. It is not: on the vector \<open>{1, 2, 3}\<close>, \<^verbatim>\<open>Resize(1)\<close> leaves \<open>{1}\<close> and one
  call of \<^verbatim>\<open>PopBack()\<close> leaves \<open>{1, 2}\<close>.
\<close>

theorem Resize_PopBack_counterexample:
  "(1::nat) < GetSize \<lparr>items_m = [Some 1, Some 2, Some (3::int)], size_m = 3, capacity_m = 3\<rparr> \<and>
   Resize 0 \<lparr>items_m = [Some 1, Some 2, Some (3::int)], size_m = 3, capacity_m = 3\<rparr> 1 =
     Inr \<lparr>items_m = [Some 1, Some 2, Some 3], size_m = 1, capacity_m = 3\<rparr> \<and>
   contents \<lparr>items_m = [Some 1, Some 2, Some (3::int)], size_m = 1, capacity_m = 3\<rparr> = [Inr 1] \<and>
   contents (PopBack_times 1 \<lparr>items_m = [Some 1, Some 2, Some (3::int)], size_m = 3, capacity_m = 3\<rparr>) =
     [Inr 1, Inr 2] \<and>
   contents \<lparr>items_m = [Some 1, Some 2, Some (3::int)], size_m = 1, capacity_m = 3\<rparr> \<noteq>
     contents (PopBack_times 1 \<lparr>items_m = [Some 1, Some 2, Some (3::int)], size_m = 3, capacity_m = 3\<rparr>)"
  by (simp add: Resize_def GetSize_def contents_def op_index_def load_def PopBack_def
      eval_nat_numeral upt_rec)

text \<open>
  C7, amended. For every vector and every \<open>n < GetSize()\<close>, \<^verbatim>\<open>Resize(n)\<close> returns the
  vector that \<open>GetSize() - n\<close> calls of \<^verbatim>\<open>PopBack()\<close> give: its size is \<open>n\<close>, its capacity is
  the capacity before the call, and its visible sequence is the first \<open>n\<close> elements of
  the sequence before the call.
\<close>

theorem Resize_truncates:
  assumes "n < GetSize v"
  shows "Resize dflt v n = Inr (PopBack_times (GetSize v - n) v) \<and>
         GetSize (PopBack_times (GetSize v - n) v) = n \<and>
         GetCapacity (PopBack_times (GetSize v - n) v) = GetCapacity v \<and>
         contents (PopBack_times (GetSize v - n) v) = take n (contents v)"
proof -
  have eq: "PopBack_times (GetSize v - n) v = v\<lparr>size_m := n\<rparr>"
    using assms by (simp add: PopBack_times_eq GetSize_def)
  have "map (op_index (v\<lparr>size_m := n\<rparr>)) [0..<n] = map (op_index v) [0..<n]"
    using assms by (simp add: op_index_def GetSize_def)
  then have "contents (v\<lparr>size_m := n\<rparr>) = take n (contents v)"
    using assms by (simp add: contents_def GetSize_def take_map)
  then show ?thesis
    using assms eq by (simp add: Resize_def GetSize_def GetCapacity_def)
qed

theorem Resize_truncates_witness:
  "(1::nat) < GetSize \<lparr>items_m = [Some 1, Some 2, Some (3::int)], size_m = 3, capacity_m = 3\<rparr> \<and>
   Resize 0 \<lparr>items_m = [Some 1, Some 2, Some (3::int)], size_m = 3, capacity_m = 3\<rparr> 1 =
     Inr \<lparr>items_m = [Some 1, Some 2, Some 3], size_m = 1, capacity_m = 3\<rparr> \<and>
   PopBack_times 2 \<lparr>items_m = [Some 1, Some 2, Some (3::int)], size_m = 3, capacity_m = 3\<rparr> =
     \<lparr>items_m = [Some 1, Some 2, Some 3], size_m = 1, capacity_m = 3\<rparr>"
  using Resize_truncates [of 1 "\<lparr>items_m = [Some 1, Some 2, Some (3::int)], size_m = 3, capacity_m = 3\<rparr>" 0]
  by (simp add: GetSize_def PopBack_def eval_nat_numeral)

subsection \<open>C8: the relational operators\<close>



subsection \<open>C9: the move constructor\<close>

text \<open>
  C9. Move construction leaves the source with \<^verbatim>\<open>GetSize() == 0\<close>, and the new vector has
  the size, the capacity, the buffer and so the visible sequence that the source had.
  This holds for every vector, empty or not.
\<close>

theorem move_constructor:
  "GetSize (snd (SimpleVector_move v)) = 0 \<and>
   GetSize (fst (SimpleVector_move v)) = GetSize v \<and>
   GetCapacity (fst (SimpleVector_move v)) = GetCapacity v \<and>
   contents (fst (SimpleVector_move v)) = contents v \<and>
   items_m (fst (SimpleVector_move v)) = items_m v"
  by (simp add: SimpleVector_move_def swap_def SimpleVector_default_def GetSize_def
      GetCapacity_def contents_def op_index_def)

theorem move_constructor_witness:
  "SimpleVector_move \<lparr>items_m = [Some 1, Some 2, None :: int option], size_m = 2, capacity_m = 3\<rparr> =
     (\<lparr>items_m = [Some 1, Some 2, None], size_m = 2, capacity_m = 3\<rparr>,
      \<lparr>items_m = [], size_m = 0, capacity_m = 0\<rparr>) \<and>
   GetSize (snd (SimpleVector_move
     \<lparr>items_m = [Some 1, Some 2, None :: int option], size_m = 2, capacity_m = 3\<rparr>)) = 0 \<and>
   contents (fst (SimpleVector_move
     \<lparr>items_m = [Some 1, Some 2, None :: int option], size_m = 2, capacity_m = 3\<rparr>)) =
     [Inr 1, Inr 2]"
  using move_constructor
    [of "\<lparr>items_m = [Some 1, Some 2, None :: int option], size_m = 2, capacity_m = 3\<rparr>"]
  by (simp add: SimpleVector_move_def swap_def SimpleVector_default_def GetSize_def
      contents_def op_index_def load_def eval_nat_numeral upt_rec)

subsection \<open>C10: the copy constructor\<close>

text \<open>
  C10. The copy of a vector should have its size and its elements, in a buffer of its
  own. The copy of a valid vector has (lemma \<open>copy_constructor_valid\<close>), with capacity
  \<open>0\<close> whatever the capacity of the source. The copy of such a copy has not: the copy of
  \<open>{1, 2, 3}\<close> has size \<open>3\<close> and capacity \<open>0\<close>, so copying it allocates no slot and then
  copies three elements.
\<close>

theorem copy_of_copy:
  "SimpleVector_copy \<lparr>items_m = [Some 1, Some 2, Some (3::int)], size_m = 3, capacity_m = 3\<rparr> =
     Inr \<lparr>items_m = [Some 1, Some 2, Some 3], size_m = 3, capacity_m = 0\<rparr> \<and>
   SimpleVector_copy \<lparr>items_m = [Some 1, Some 2, Some (3::int)], size_m = 3, capacity_m = 0\<rparr> =
     Inl out_of_bounds \<and>
   ArrayPtr_new (capacity_m
     \<lparr>items_m = [Some 1, Some 2, Some (3::int)], size_m = 3, capacity_m = 0\<rparr>) =
     ([] :: int ArrayPtr)"
  by (simp add: SimpleVector_copy_def ArrayPtr_new_def std_copy_def begin_it_def end_it_def
      load_def store_def eval_nat_numeral)

end
